theory Spec2Isabelle
  imports Complex_Main "HOL-Library.Sublist" "HOL-Library.AList"
begin

section \<open>JavaScript values used by backend/server.js\<close>

text \<open>
  Strings are modelled as HOL strings holding the UTF-8 bytes of the text.

  \<open>String.prototype.toLowerCase\<close> lower-cases code point by code point, by the Unicode
  character database. What it does to the ASCII characters is spelled out here: A..Z
  become a..z, the others stay. Exactly two code points outside ASCII have a lower case
  with an ASCII character in it, and they are spelled out too: U+0130 (capital I with dot
  above, bytes C4 B0) becomes i followed by U+0307 (bytes CC 87), and U+212A (the Kelvin
  sign, bytes E2 84 AA) becomes k. Every other code point becomes a non-empty text
  without ASCII characters, which may depend on its neighbours (the final sigma);
  \<open>unicodeLower m i\<close> stands for that text, for the code point at offset \<open>i\<close> of the
  message \<open>m\<close>, and nothing more is assumed about it.
\<close>

definition asciiToLower :: "char \<Rightarrow> char" where
  "asciiToLower c =
     (let n = (of_char c :: nat) in if 65 \<le> n \<and> n \<le> 90 then char_of (n + 32) else c)"

text \<open>
  A code point outside ASCII is a lead byte and the continuation bytes (80..BF) that
  follow it, as many as the lead byte announces.
\<close>

definition isContinuation :: "char \<Rightarrow> bool" where
  "isContinuation c = (128 \<le> (of_char c :: nat) \<and> (of_char c :: nat) < 192)"

definition trailing :: "char \<Rightarrow> nat" where
  "trailing c =
     (let n = (of_char c :: nat) in
      if n < 192 then 0 else if n < 224 then 1 else if n < 240 then 2 else 3)"

definition continuationBytes :: "char \<Rightarrow> string \<Rightarrow> nat" where
  "continuationBytes c cs = length (takeWhile isContinuation (take (trailing c) cs))"

definition unicodeLower :: "string \<Rightarrow> nat \<Rightarrow> string" where
  "unicodeLower =
     (SOME f. \<forall>m i. f m i \<noteq> [] \<and> list_all (\<lambda>c. 128 \<le> (of_char c :: nat)) (f m i))"

declare unicodeLower_def [code del]

fun toLowerFrom :: "string \<Rightarrow> nat \<Rightarrow> string \<Rightarrow> string" where
  "toLowerFrom m i [] = []"
| "toLowerFrom m i (c # cs) =
     (if (of_char c :: nat) < 128 then asciiToLower c # toLowerFrom m (Suc i) cs
      else
        (let k = continuationBytes c cs; cp = c # take k cs in
         (if cp = [CHR 0xC4, CHR 0xB0] then [CHR ''i'', CHR 0xCC, CHR 0x87]
          else if cp = [CHR 0xE2, CHR 0x84, CHR 0xAA] then [CHR ''k'']
          else unicodeLower m i)
         @ toLowerFrom m (Suc (i + k)) (drop k cs)))"

definition toLowerCase :: "string \<Rightarrow> string" where
  "toLowerCase s = toLowerFrom s 0 s"

text \<open>\<open>starts_with w s\<close>: the string \<open>s\<close> begins with \<open>w\<close>.\<close>

fun starts_with :: "string \<Rightarrow> string \<Rightarrow> bool" where
  "starts_with [] s = True"
| "starts_with (x # xs) [] = False"
| "starts_with (x # xs) (y # ys) = (x = y \<and> starts_with xs ys)"

text \<open>\<open>str_includes s w\<close> is \<open>s.includes(w)\<close>: \<open>w\<close> occurs in \<open>s\<close> at some position.\<close>

fun str_includes :: "string \<Rightarrow> string \<Rightarrow> bool" where
  "str_includes [] w = (w = [])"
| "str_includes (c # cs) w = (starts_with w (c # cs) \<or> str_includes cs w)"

text \<open>
  Property lookup \<open>obj[key]\<close> on a plain object (an object literal, or an object built
  by \<open>JSON.parse\<close>): an own property wins; otherwise the name is looked up on
  \<open>Object.prototype\<close>, whose properties are all truthy values (functions, and the
  prototype object itself for \<open>__proto__\<close>); otherwise the result is \<open>undefined\<close>.
\<close>

datatype 'a lookup = Absent | Own 'a | Inherited

definition objectPrototypeKeys :: "string list" where
  "objectPrototypeKeys =
     [''constructor'', ''__defineGetter__'', ''__defineSetter__'', ''hasOwnProperty'',
      ''__lookupGetter__'', ''__lookupSetter__'', ''isPrototypeOf'',
      ''propertyIsEnumerable'', ''toString'', ''valueOf'', ''__proto__'',
      ''toLocaleString'']"

definition jsGet :: "(string \<times> 'a) list \<Rightarrow> string \<Rightarrow> 'a lookup" where
  "jsGet obj key =
     (case map_of obj key of
        Some v \<Rightarrow> Own v
      | None \<Rightarrow> if key \<in> set objectPrototypeKeys then Inherited else Absent)"

text \<open>
  Assignment \<open>obj[key] = v\<close>: an own property is overwritten in place, a new key is
  appended; assigning to \<open>__proto__\<close> when it is not an own property runs the inherited
  setter and adds no own property.
\<close>

definition jsSet :: "(string \<times> 'a) list \<Rightarrow> string \<Rightarrow> 'a \<Rightarrow> (string \<times> 'a) list" where
  "jsSet obj key v =
     (if key = ''__proto__'' \<and> map_of obj key = None then obj else AList.update key v obj)"

section \<open>Data model\<close>

record message =
  role :: string
  content :: string

record chat =
  title :: string
  createdAt :: int
  messages :: "message list"
  memory :: string
  forcedMode :: "string option"

type_synonym data = "(string \<times> chat) list"

text \<open>
  The world the data layer acts on: \<open>doc\<close> is the parsed content of chats.json
  (\<open>None\<close> while the file does not exist), \<open>writeLog\<close> records every document handed
  to \<open>fs.writeFile\<close>, oldest first.
\<close>

record fs_state =
  doc :: "data option"
  writeLog :: "data list"

section \<open>Data layer\<close>

definition writeFile :: "data \<Rightarrow> fs_state \<Rightarrow> fs_state" where
  "writeFile d s = s\<lparr>doc := Some d, writeLog := writeLog s @ [d]\<rparr>"

definition ensureDataFile :: "fs_state \<Rightarrow> fs_state" where
  "ensureDataFile s = (case doc s of None \<Rightarrow> writeFile [] s | Some d \<Rightarrow> s)"

text \<open>After \<open>ensureDataFile\<close> the file exists, so the \<open>None\<close> branch below is never taken.\<close>

definition readData :: "fs_state \<Rightarrow> data \<times> fs_state" where
  "readData s =
     (let s' = ensureDataFile s in ((case doc s' of Some d \<Rightarrow> d | None \<Rightarrow> []), s'))"

definition writeData :: "data \<Rightarrow> fs_state \<Rightarrow> fs_state" where
  "writeData d s = writeFile d s"

text \<open>\<open>data[chatId] || null\<close>: \<open>Absent\<close> stands for \<open>null\<close>.\<close>

definition getChat :: "string \<Rightarrow> fs_state \<Rightarrow> chat lookup \<times> fs_state" where
  "getChat chatId s = (let (d, s') = readData s in (jsGet d chatId, s'))"

definition saveChat :: "string \<Rightarrow> chat \<Rightarrow> fs_state \<Rightarrow> fs_state" where
  "saveChat chatId chatData s =
     (let (d, s') = readData s in writeData (jsSet d chatId chatData) s')"

definition deleteChat :: "string \<Rightarrow> fs_state \<Rightarrow> bool \<times> fs_state" where
  "deleteChat chatId s =
     (let (d, s') = readData s in
      case jsGet d chatId of
        Absent \<Rightarrow> (False, s')
      | _ \<Rightarrow> (True, writeData (AList.delete chatId d) s'))"

definition greeting :: string where
  "greeting = ''Hey '' @ [CHR 0xF0, CHR 0x9F, CHR 0x91, CHR 0x8B] @ '' I''
     @ [CHR 0xE2, CHR 0x80, CHR 0x99] @ ''m Almas. How can I help you today?''"

text \<open>\<open>createChat\<close>, given the values of \<open>crypto.randomUUID()\<close> and \<open>Date.now()\<close>.\<close>

definition createChat :: "string \<Rightarrow> int \<Rightarrow> fs_state \<Rightarrow> string \<times> fs_state" where
  "createChat uuid now s =
     (let (d, s') = readData s;
          d' = jsSet d uuid
            \<lparr>title = ''New Chat'', createdAt = now,
             messages = [\<lparr>role = ''assistant'', content = greeting\<rparr>],
             memory = '''', forcedMode = None\<rparr>
      in (uuid, writeData d' s'))"

section \<open>Modes\<close>

record mode_config =
  temperature :: real
  max_tokens :: nat
  systemPrompt :: string

definition MODES :: "(string \<times> mode_config) list" where
  "MODES =
     [(''chat'', \<lparr>temperature = 8 / 10, max_tokens = 500, systemPrompt =
         ''You are Almas, a friendly AI created by Hussain. Be natural and conversational.''\<rparr>),
      (''technical'', \<lparr>temperature = 2 / 10, max_tokens = 2000, systemPrompt =
         ''You are Almas, a senior software engineer. Give optimized, correct answers with code blocks.''\<rparr>),
      (''concise'', \<lparr>temperature = 5 / 10, max_tokens = 150, systemPrompt =
         ''You are Almas. Give very short and clear answers.''\<rparr>),
      (''exam'', \<lparr>temperature = 3 / 10, max_tokens = 1200, systemPrompt =
         ''You are Almas. Answer in structured exam format with headings and bullet points.''\<rparr>)]"

definition techKeywords :: "string list" where
  "techKeywords =
     [''code'', ''bug'', ''error'', ''algorithm'', ''function'',
      ''javascript'', ''node'', ''react'', ''express'', ''api'',
      ''database'', ''sql'', ''c++'', ''java'', ''python'']"

definition detectMode :: "string \<Rightarrow> string" where
  "detectMode msg =
     (let lower = toLowerCase msg in
      if list_ex (\<lambda>word. str_includes lower word) techKeywords then ''technical''
      else if str_includes lower ''short answer'' then ''concise''
      else if str_includes lower ''exam'' \<or> str_includes lower ''define'' then ''exam''
      else ''chat'')"

section \<open>The generator call\<close>

text \<open>
  What \<open>fetch\<close> and \<open>response.json()\<close> can do, seen from \<open>callGroq\<close>:
  \<open>Rejected\<close> is a transport exception; \<open>Responded ok body\<close> is a response with
  \<open>response.ok = ok\<close>. \<open>JsonError\<close> is a body for which \<open>response.json()\<close> or the
  access \<open>data.choices\<close> throws; \<open>JsonContent c\<close> is a body where
  \<open>data.choices?.[0]?.message?.content\<close> evaluates to the string \<open>c\<close>, or to
  \<open>undefined\<close>/\<open>null\<close> for \<open>None\<close>.
\<close>

datatype json_body = JsonError | JsonContent "string option"

datatype fetch_result = Rejected | Responded bool json_body

text \<open>The request body; the constant model name is left out.\<close>

record groq_request =
  req_messages :: "message list"
  req_temperature :: "real option"
  req_max_tokens :: "nat option"

definition fallbackReply :: string where
  "fallbackReply = [CHR 0xE2, CHR 0x9A, CHR 0xA0, CHR 0xEF, CHR 0xB8, CHR 0x8F]
     @ '' I'' @ [CHR 0x27] @ ''m having trouble connecting right now.''"

text \<open>
  \<open>config\<close> is the value of \<open>MODES[selectedMode]\<close>: a profile, an object inherited from
  \<open>Object.prototype\<close> (every field read gives \<open>undefined\<close>) or \<open>undefined\<close> (a field
  read throws, inside the \<open>try\<close> of \<open>callGroq\<close>).
\<close>

definition callGroq ::
  "(groq_request \<Rightarrow> fetch_result) \<Rightarrow> message list \<Rightarrow> mode_config lookup \<Rightarrow> string" where
  "callGroq fetch msgs config =
     (case config of
        Absent \<Rightarrow> fallbackReply
      | _ \<Rightarrow>
        (case fetch \<lparr>req_messages = msgs,
                     req_temperature = (case config of Own p \<Rightarrow> Some (temperature p) | _ \<Rightarrow> None),
                     req_max_tokens = (case config of Own p \<Rightarrow> Some (max_tokens p) | _ \<Rightarrow> None)\<rparr> of
           Rejected \<Rightarrow> fallbackReply
         | Responded ok body \<Rightarrow>
             if \<not> ok then fallbackReply
             else (case body of
                     JsonError \<Rightarrow> fallbackReply
                   | JsonContent c \<Rightarrow> (case c of None \<Rightarrow> [] | Some txt \<Rightarrow> txt))))"

section \<open>Routes\<close>

record summary =
  s_chatId :: string
  s_title :: string
  s_createdAt :: int

text \<open>
  GET /api/chats. The keys of a JavaScript object are distinct, so mapping over
  \<open>Object.keys(data)\<close> and reading \<open>data[id]\<close> is mapping over the entries; the sort with
  comparator \<open>b.createdAt - a.createdAt\<close> is stable.
\<close>

definition listChats :: "fs_state \<Rightarrow> summary list \<times> fs_state" where
  "listChats s =
     (let (d, s') = readData s;
          list = map (\<lambda>(id, c). \<lparr>s_chatId = id, s_title = title c, s_createdAt = createdAt c\<rparr>) d
      in (sort_key (\<lambda>x. - s_createdAt x) list, s'))"

datatype handler_error = InvalidRequest | NotFound | TypeError

text \<open>DELETE /api/chat/:chatId.\<close>

definition deleteRoute :: "string \<Rightarrow> fs_state \<Rightarrow> (handler_error + unit) \<times> fs_state" where
  "deleteRoute chatId s =
     (let (success, s') = deleteChat chatId s in
      (if \<not> success then Inl NotFound else Inr (), s'))"

text \<open>\<open>chat.forcedMode || detectMode(message)\<close>: \<open>null\<close> and the empty string are falsy.\<close>

definition selectMode :: "string option \<Rightarrow> string \<Rightarrow> string" where
  "selectMode forced msg =
     (case forced of
        None \<Rightarrow> detectMode msg
      | Some m \<Rightarrow> if m = [] then detectMode msg else m)"

text \<open>The template literal of the system message; \<open>undefined\<close> prints as "undefined".\<close>

definition systemMessage :: "mode_config lookup \<Rightarrow> string \<Rightarrow> message" where
  "systemMessage config mem =
     \<lparr>role = ''system'',
      content = (case config of Own p \<Rightarrow> systemPrompt p | _ \<Rightarrow> ''undefined'')
        @ [CHR 0x0A] @ ''User Memory:'' @ [CHR 0x0A] @ (if mem = [] then ''None'' else mem)\<rparr>"

text \<open>\<open>xs.slice(-n)\<close>: the last \<open>n\<close> elements, all of them when there are fewer.\<close>

definition slice_last :: "nat \<Rightarrow> 'a list \<Rightarrow> 'a list" where
  "slice_last n xs = drop (length xs - n) xs"

text \<open>The first argument of \<open>callGroq\<close>: \<open>[systemMessage, ...chat.messages.slice(-12)]\<close>.\<close>

definition buildContext :: "mode_config lookup \<Rightarrow> string \<Rightarrow> message list \<Rightarrow> message list" where
  "buildContext config mem msgs = systemMessage config mem # slice_last 12 msgs"

text \<open>
  POST /api/chat. The request fields are strings or missing. \<open>TypeError\<close> is the
  exception thrown in the handler when a field of \<open>undefined\<close> is read
  (\<open>config.systemPrompt\<close> for an unknown mode, \<open>chat.messages.push\<close> on an inherited
  value); nothing in the handler catches it.
\<close>

definition handleTurn ::
  "(groq_request \<Rightarrow> fetch_result) \<Rightarrow> string option \<Rightarrow> string option \<Rightarrow> fs_state
     \<Rightarrow> (handler_error + string \<times> string) \<times> fs_state" where
  "handleTurn fetch chatIdO messageO s =
     (case (chatIdO, messageO) of
        (Some chatId, Some msg) \<Rightarrow>
          if chatId = [] \<or> msg = [] then (Inl InvalidRequest, s)
          else
            (let (found, s1) = getChat chatId s in
             case found of
               Absent \<Rightarrow> (Inl NotFound, s1)
             | Inherited \<Rightarrow> (Inl TypeError, s1)
             | Own c \<Rightarrow>
                 (let c1 = c\<lparr>messages := messages c @ [\<lparr>role = ''user'', content = msg\<rparr>]\<rparr>;
                      selectedMode = selectMode (forcedMode c1) msg;
                      config = jsGet MODES selectedMode
                  in case config of
                       Absent \<Rightarrow> (Inl TypeError, s1)
                     | _ \<Rightarrow>
                       (let aiReply = callGroq fetch (buildContext config (memory c1) (messages c1)) config;
                            c2 = c1\<lparr>messages := messages c1 @ [\<lparr>role = ''assistant'', content = aiReply\<rparr>]\<rparr>;
                            c3 = c2\<lparr>memory := msg\<rparr>
                        in (Inr (aiReply, selectedMode), saveChat chatId c3 s1))))
      | _ \<Rightarrow> (Inl InvalidRequest, s))"

section \<open>The handler between its suspension points\<close>

text \<open>
  POST /api/chat suspends at \<open>await getChat\<close>, at \<open>await callGroq\<close> and, inside
  \<open>saveChat\<close>, at \<open>await readData\<close> and \<open>await writeData\<close>; other requests
  can run at each suspension. A task is a request in flight, with the local variables that
  are live at the suspension point:
  \<^item> \<open>Received\<close>: the request has arrived;
  \<^item> \<open>Generating\<close>: \<open>getChat\<close> has returned, the user message is pushed, the
    generator call is pending;
  \<^item> \<open>Saving\<close>: the reply is pushed, \<open>saveChat\<close> is about to read the document;
  \<^item> \<open>Writing\<close>: \<open>saveChat\<close> has read the document and is about to write it;
  \<^item> \<open>Finished\<close>: the response is sent.
\<close>

datatype turn_task =
    Received "string option" "string option"
  | Generating string string chat string "mode_config lookup"
  | Saving string chat "string \<times> string"
  | Writing string chat data "string \<times> string"
  | Finished "handler_error + string \<times> string"

fun turn_step ::
  "(groq_request \<Rightarrow> fetch_result) \<Rightarrow> turn_task \<Rightarrow> fs_state \<Rightarrow> turn_task \<times> fs_state" where
  "turn_step fetch (Received chatIdO messageO) s =
     (case (chatIdO, messageO) of
        (Some chatId, Some msg) \<Rightarrow>
          if chatId = [] \<or> msg = [] then (Finished (Inl InvalidRequest), s)
          else
            (let (found, s1) = getChat chatId s in
             case found of
               Absent \<Rightarrow> (Finished (Inl NotFound), s1)
             | Inherited \<Rightarrow> (Finished (Inl TypeError), s1)
             | Own c \<Rightarrow>
                 (let c1 = c\<lparr>messages := messages c @ [\<lparr>role = ''user'', content = msg\<rparr>]\<rparr>;
                      selectedMode = selectMode (forcedMode c1) msg;
                      config = jsGet MODES selectedMode
                  in case config of
                       Absent \<Rightarrow> (Finished (Inl TypeError), s1)
                     | _ \<Rightarrow> (Generating chatId msg c1 selectedMode config, s1)))
      | _ \<Rightarrow> (Finished (Inl InvalidRequest), s))"
| "turn_step fetch (Generating chatId msg c1 selectedMode config) s =
     (let aiReply = callGroq fetch (buildContext config (memory c1) (messages c1)) config;
          c2 = c1\<lparr>messages := messages c1 @ [\<lparr>role = ''assistant'', content = aiReply\<rparr>]\<rparr>;
          c3 = c2\<lparr>memory := msg\<rparr>
      in (Saving chatId c3 (aiReply, selectedMode), s))"
| "turn_step fetch (Saving chatId c3 r) s =
     (let (d, s') = readData s in (Writing chatId c3 d r, s'))"
| "turn_step fetch (Writing chatId c3 d r) s =
     (Finished (Inr r), writeData (jsSet d chatId c3) s)"
| "turn_step fetch (Finished r) s = (Finished r, s)"

text \<open>
  Two requests in flight over the same file. A schedule says which of the two runs its
  next step: \<open>True\<close> the first, \<open>False\<close> the second.
\<close>

fun interleave ::
  "(groq_request \<Rightarrow> fetch_result) \<Rightarrow> bool list \<Rightarrow> turn_task \<times> turn_task \<times> fs_state
     \<Rightarrow> turn_task \<times> turn_task \<times> fs_state" where
  "interleave fetch [] cfg = cfg"
| "interleave fetch (b # bs) (t1, t2, s) =
     (if b then (let (t1', s') = turn_step fetch t1 s in interleave fetch bs (t1', t2, s'))
      else (let (t2', s') = turn_step fetch t2 s in interleave fetch bs (t1, t2', s')))"

section \<open>Notions of the specification\<close>

text \<open>
  Case-insensitive substring match, in the specification's words, for the keywords of the
  mode policy, which are ASCII: some stretch of the message equals the keyword letter for
  letter, where two characters are the same letter when they are equal or are the upper
  and the lower case of one ASCII letter.
\<close>

definition same_letter :: "char \<Rightarrow> char \<Rightarrow> bool" where
  "same_letter c c' =
     (c = c'
      \<or> (65 \<le> (of_char c :: nat) \<and> (of_char c :: nat) \<le> 90 \<and> (of_char c' :: nat) = of_char c + 32)
      \<or> (65 \<le> (of_char c' :: nat) \<and> (of_char c' :: nat) \<le> 90 \<and> (of_char c :: nat) = of_char c' + 32))"

definition ci_contains :: "string \<Rightarrow> string \<Rightarrow> bool" where
  "ci_contains msg w = (\<exists>u. sublist u msg \<and> list_all2 same_letter u w)"

text \<open>The characters the keywords are made of: ASCII, not upper case, and not k.\<close>

definition keywordChar :: "char \<Rightarrow> bool" where
  "keywordChar c =
     ((of_char c :: nat) < 128 \<and> c \<noteq> CHR ''k'' \<and> \<not> (65 \<le> (of_char c :: nat) \<and> (of_char c :: nat) \<le> 90))"

text \<open>A failed generator call: a transport exception or a non-success response.\<close>

fun generator_failed :: "fetch_result \<Rightarrow> bool" where
  "generator_failed Rejected = True"
| "generator_failed (Responded ok body) = (\<not> ok)"

text \<open>The known mode identifiers.\<close>

definition knownModes :: "string list" where
  "knownModes = [''chat'', ''technical'', ''concise'', ''exam'']"

section \<open>Example data\<close>

text \<open>A store holding one freshly created session.\<close>

definition example_chat :: chat where
  "example_chat =
     \<lparr>title = ''New Chat'', createdAt = 1700000000000,
      messages = [\<lparr>role = ''assistant'', content = greeting\<rparr>],
      memory = '''', forcedMode = None\<rparr>"

definition example_state :: fs_state where
  "example_state = \<lparr>doc = Some [(''s1'', example_chat)], writeLog = []\<rparr>"

text \<open>A transcript of twenty messages, alternating assistant and user, numbered in order.\<close>

definition example_transcript :: "message list" where
  "example_transcript =
     map (\<lambda>i. \<lparr>role = (if even i then ''assistant'' else ''user''),
                content = replicate i (CHR ''x'')\<rparr>) [0..<20]"

text \<open>A store holding two sessions.\<close>

definition example_two :: fs_state where
  "example_two =
     \<lparr>doc = Some [(''s1'', example_chat), (''s2'', example_chat\<lparr>title := ''Second''\<rparr>)],
      writeLog = []\<rparr>"

section \<open>Schedules of two turns\<close>

text \<open>
  \<open>occurrence b n sched\<close> is the position of the occurrence number \<open>n\<close> (counted from 0)
  of \<open>b\<close> in the schedule. A complete schedule runs the four steps of both turns. In a
  turn that commits, the step number 2 is the read of \<open>saveChat\<close> and the step number 3
  its write; the saves of the two turns are disjoint when one turn has written before the
  other one reads.
\<close>

fun occurrence :: "bool \<Rightarrow> nat \<Rightarrow> bool list \<Rightarrow> nat option" where
  "occurrence b n [] = None"
| "occurrence b n (x # xs) =
     (if x = b then (case n of 0 \<Rightarrow> Some 0 | Suc m \<Rightarrow> map_option Suc (occurrence b m xs))
      else map_option Suc (occurrence b n xs))"

definition complete_schedule :: "bool list \<Rightarrow> bool" where
  "complete_schedule sched = (count_list sched True = 4 \<and> count_list sched False = 4)"

definition saves_disjoint :: "bool list \<Rightarrow> bool" where
  "saves_disjoint sched =
     (case (occurrence True 2 sched, occurrence True 3 sched,
            occurrence False 2 sched, occurrence False 3 sched) of
        (Some r1, Some w1, Some r2, Some w2) \<Rightarrow> w1 < r2 \<or> w2 < r1
      | _ \<Rightarrow> False)"

text \<open>The thirty complete schedules whose saves are disjoint.\<close>

definition disjoint_schedule_list :: "bool list list" where
  "disjoint_schedule_list =
    [[False, False, False, False, True, True, True, True],
     [False, False, False, True, False, True, True, True],
     [False, False, True, False, False, True, True, True],
     [False, True, False, False, False, True, True, True],
     [True, False, False, False, False, True, True, True],
     [False, False, False, True, True, False, True, True],
     [False, False, True, False, True, False, True, True],
     [False, True, False, False, True, False, True, True],
     [True, False, False, False, True, False, True, True],
     [False, False, True, True, False, False, True, True],
     [False, True, False, True, False, False, True, True],
     [True, False, False, True, False, False, True, True],
     [False, True, True, False, False, False, True, True],
     [True, False, True, False, False, False, True, True],
     [True, True, False, False, False, False, True, True],
     [False, False, True, True, True, True, False, False],
     [False, True, False, True, True, True, False, False],
     [True, False, False, True, True, True, False, False],
     [False, True, True, False, True, True, False, False],
     [True, False, True, False, True, True, False, False],
     [True, True, False, False, True, True, False, False],
     [False, True, True, True, False, True, False, False],
     [True, False, True, True, False, True, False, False],
     [True, True, False, True, False, True, False, False],
     [True, True, True, False, False, True, False, False],
     [False, True, True, True, True, False, False, False],
     [True, False, True, True, True, False, False, False],
     [True, True, False, True, True, False, False, False],
     [True, True, True, False, True, False, False, False],
     [True, True, True, True, False, False, False, False]]"

text \<open>The forty complete schedules whose saves overlap.\<close>

definition overlapping_schedule_list :: "bool list list" where
  "overlapping_schedule_list =
    [[False, False, False, True, True, True, False, True],
     [False, False, True, False, True, True, False, True],
     [False, True, False, False, True, True, False, True],
     [True, False, False, False, True, True, False, True],
     [False, False, True, True, False, True, False, True],
     [False, True, False, True, False, True, False, True],
     [True, False, False, True, False, True, False, True],
     [False, True, True, False, False, True, False, True],
     [True, False, True, False, False, True, False, True],
     [True, True, False, False, False, True, False, True],
     [False, False, True, True, True, False, False, True],
     [False, True, False, True, True, False, False, True],
     [True, False, False, True, True, False, False, True],
     [False, True, True, False, True, False, False, True],
     [True, False, True, False, True, False, False, True],
     [True, True, False, False, True, False, False, True],
     [False, True, True, True, False, False, False, True],
     [True, False, True, True, False, False, False, True],
     [True, True, False, True, False, False, False, True],
     [True, True, True, False, False, False, False, True],
     [False, False, False, True, True, True, True, False],
     [False, False, True, False, True, True, True, False],
     [False, True, False, False, True, True, True, False],
     [True, False, False, False, True, True, True, False],
     [False, False, True, True, False, True, True, False],
     [False, True, False, True, False, True, True, False],
     [True, False, False, True, False, True, True, False],
     [False, True, True, False, False, True, True, False],
     [True, False, True, False, False, True, True, False],
     [True, True, False, False, False, True, True, False],
     [False, False, True, True, True, False, True, False],
     [False, True, False, True, True, False, True, False],
     [True, False, False, True, True, False, True, False],
     [False, True, True, False, True, False, True, False],
     [True, False, True, False, True, False, True, False],
     [True, True, False, False, True, False, True, False],
     [False, True, True, True, False, False, True, False],
     [True, False, True, True, False, False, True, False],
     [True, True, False, True, False, False, True, False],
     [True, True, True, False, False, False, True, False]]"

section \<open>Mode policy\<close>

lemma starts_with_prefix: "starts_with w s = prefix w s"
  by (induction w s rule: starts_with.induct) simp_all

lemma str_includes_sublist: "str_includes s w = sublist w s"
  by (induction s) (simp_all add: starts_with_prefix sublist_Cons_right)

lemma sublist_map_iff: "sublist w (map f s) = (\<exists>u. sublist u s \<and> map f u = w)"
proof
  assume "sublist w (map f s)"
  then obtain ps ss where "map f s = ps @ (w @ ss)"
    by (auto simp: sublist_def)
  then have "\<exists>us vs. s = us @ vs \<and> ps = map f us \<and> w @ ss = map f vs"
    by (simp only: map_eq_append_conv)
  then obtain us vs where s: "s = us @ vs" and vs: "w @ ss = map f vs"
    by (elim exE conjE)
  from vs have "\<exists>u ws. vs = u @ ws \<and> w = map f u \<and> ss = map f ws"
    by (simp only: append_eq_map_conv)
  then obtain u ws where "vs = u @ ws" and u: "map f u = w"
    by (elim exE conjE) simp
  with s have "sublist u s"
    unfolding sublist_def by blast
  with u show "\<exists>u. sublist u s \<and> map f u = w"
    by blast
next
  assume "\<exists>u. sublist u s \<and> map f u = w"
  then obtain u ps ss where "s = ps @ u @ ss" "map f u = w"
    by (auto simp: sublist_def)
  then have "map f s = map f ps @ w @ map f ss"
    by simp
  then show "sublist w (map f s)"
    unfolding sublist_def by blast
qed

lemma unicodeLower_spec:
  "unicodeLower m i \<noteq> []" "list_all (\<lambda>c. 128 \<le> (of_char c :: nat)) (unicodeLower m i)"
proof -
  have "\<exists>f :: string \<Rightarrow> nat \<Rightarrow> string.
      \<forall>m i. f m i \<noteq> [] \<and> list_all (\<lambda>c. 128 \<le> (of_char c :: nat)) (f m i)"
    by (rule exI [of _ "\<lambda>m i. [CHR 0x80]"]) simp
  from someI_ex [OF this]
  have "\<forall>m i. unicodeLower m i \<noteq> [] \<and> list_all (\<lambda>c. 128 \<le> (of_char c :: nat)) (unicodeLower m i)"
    unfolding unicodeLower_def .
  then show "unicodeLower m i \<noteq> []" "list_all (\<lambda>c. 128 \<le> (of_char c :: nat)) (unicodeLower m i)"
    by blast+
qed

lemma asciiToLower_other: "128 \<le> (of_char c :: nat) \<Longrightarrow> asciiToLower c = c"
  by (simp add: asciiToLower_def)

lemma same_letter_keyword:
  assumes "keywordChar k"
  shows "same_letter c k \<longleftrightarrow> asciiToLower c = k"
proof (cases "65 \<le> (of_char c :: nat) \<and> (of_char c :: nat) \<le> 90")
  case True
  then have "c \<noteq> k"
    using assms by (auto simp: keywordChar_def)
  moreover have "take_bit 8 (of_char c + 32 :: nat) = of_char c + 32"
    using True by (simp add: take_bit_nat_eq_self)
  then have "(of_char k :: nat) = of_char c + 32 \<longleftrightarrow> char_of (of_char c + 32 :: nat) = k"
    by (auto simp: char_of_eq_iff)
  ultimately show ?thesis
    using True assms by (auto simp: same_letter_def asciiToLower_def keywordChar_def)
next
  case False
  then show ?thesis
    using assms by (auto simp: same_letter_def asciiToLower_def keywordChar_def)
qed

lemma list_all2_same_letter:
  assumes "list_all keywordChar w"
  shows "list_all2 same_letter u w \<longleftrightarrow> map asciiToLower u = w"
  using assms
proof (induction u arbitrary: w)
  case Nil
  then show ?case by auto
next
  case (Cons c u)
  then show ?case
    by (cases w) (auto simp: same_letter_keyword)
qed

lemma ci_contains_keyword:
  assumes "list_all keywordChar w"
  shows "ci_contains msg w \<longleftrightarrow> sublist w (map asciiToLower msg)"
  unfolding ci_contains_def sublist_map_iff
  by (simp add: list_all2_same_letter [OF assms])

lemma foreign_prefix:
  assumes "v \<noteq> []" and "list_all keywordChar v"
    and "X \<noteq> []" and "list_all (\<lambda>c. \<not> keywordChar c) X"
  shows "\<not> prefix v (X @ A)"
  using assms by (cases v; cases X) auto

lemma foreign_sublist:
  assumes "v \<noteq> []" and "list_all keywordChar v" and "list_all (\<lambda>c. \<not> keywordChar c) X"
  shows "sublist v (X @ A) \<longleftrightarrow> sublist v A"
  using assms(3)
proof (induction X)
  case Nil
  then show ?case by simp
next
  case (Cons x X)
  then have "\<not> prefix v (x # X @ A)"
    using assms(1,2) by (cases v) auto
  with Cons show ?case
    by (simp add: sublist_Cons_right)
qed

lemma continuation_take:
  "list_all isContinuation (take (continuationBytes c cs) cs)"
proof -
  let ?ys = "take (trailing c) cs"
  have "length (takeWhile isContinuation ?ys) \<le> trailing c"
    using length_takeWhile_le [of isContinuation ?ys] by simp
  then have "take (continuationBytes c cs) cs = take (continuationBytes c cs) ?ys"
    by (simp add: continuationBytes_def min_def)
  also have "\<dots> = takeWhile isContinuation ?ys"
    unfolding continuationBytes_def by (rule takeWhile_eq_take [symmetric])
  finally show ?thesis
    by (simp add: list_all_iff) (meson set_takeWhileD)
qed

lemma not_keywordChar: "128 \<le> (of_char c :: nat) \<Longrightarrow> \<not> keywordChar c"
  by (simp add: keywordChar_def)


text \<open>
  On a message without U+0130, lower-casing and folding the ASCII letters give texts with
  the same occurrences of every word made of keyword characters.
\<close>

lemma toLowerFrom_keyword:
  assumes "list_all keywordChar v" and "\<not> sublist [CHR 0xC4, CHR 0xB0] xs"
  shows "(prefix v (toLowerFrom m i xs) \<longleftrightarrow> prefix v (map asciiToLower xs))
     \<and> (sublist v (toLowerFrom m i xs) \<longleftrightarrow> sublist v (map asciiToLower xs))"
  using assms
proof (induction m i xs arbitrary: v rule: toLowerFrom.induct)
  case (1 m i)
  then show ?case by simp
next
  case (2 m i c cs)
  have tail: "\<not> sublist [CHR 0xC4, CHR 0xB0] cs"
    using "2.prems"(2) by (auto simp: sublist_Cons_right)
  show ?case
  proof (cases "(of_char c :: nat) < 128")
    case True
    note ih = "2.IH"(1) [OF True _ tail]
    have pre: "prefix v (asciiToLower c # toLowerFrom m (Suc i) cs)
        \<longleftrightarrow> prefix v (asciiToLower c # map asciiToLower cs)"
    proof (cases v)
      case Nil
      then show ?thesis by simp
    next
      case (Cons x v')
      with "2.prems"(1) have "list_all keywordChar v'"
        by simp
      from ih [OF this] Cons show ?thesis
        by simp
    qed
    with ih [OF "2.prems"(1)] True show ?thesis
      by (simp add: sublist_Cons_right)
  next
    case False
    define k where "k = continuationBytes c cs"
    define cp where "cp = c # take k cs"
    define Y where "Y = (if cp = [CHR 0xC4, CHR 0xB0] then [CHR ''i'', CHR 0xCC, CHR 0x87]
          else if cp = [CHR 0xE2, CHR 0x84, CHR 0xAA] then [CHR ''k'']
          else unicodeLower m i)"
    have lhs: "toLowerFrom m i (c # cs) = Y @ toLowerFrom m (Suc (i + k)) (drop k cs)"
      unfolding Y_def cp_def k_def using False
      by (subst toLowerFrom.simps) (simp only: if_False Let_def)
    have cont: "list_all isContinuation (take k cs)"
      unfolding k_def by (rule continuation_take)
    have high: "list_all (\<lambda>c. 128 \<le> (of_char c :: nat)) cp"
      using False cont by (auto simp: cp_def list_all_iff isContinuation_def)
    have rhs: "map asciiToLower (c # cs) = cp @ map asciiToLower (drop k cs)"
    proof -
      have "c # cs = cp @ drop k cs"
        by (simp add: cp_def)
      then have "map asciiToLower (c # cs) = map asciiToLower cp @ map asciiToLower (drop k cs)"
        by (metis map_append)
      moreover have "map asciiToLower cp = cp"
        using high by (auto simp: list_all_iff asciiToLower_other intro: map_idI)
      ultimately show ?thesis
        by simp
    qed
    have cp_foreign: "list_all (\<lambda>c. \<not> keywordChar c) cp" "cp \<noteq> []"
      using high by (auto simp: list_all_iff not_keywordChar cp_def)
    have "cp \<noteq> [CHR 0xC4, CHR 0xB0]"
    proof
      assume "cp = [CHR 0xC4, CHR 0xB0]"
      then have "prefix [CHR 0xC4, CHR 0xB0] (c # cs)"
        unfolding cp_def by (metis append_take_drop_id append_Cons prefixI)
      with "2.prems"(2) show False
        using prefix_imp_sublist by blast
    qed
    then have Y_foreign: "list_all (\<lambda>c. \<not> keywordChar c) Y" "Y \<noteq> []"
      using unicodeLower_spec [of m i]
      by (auto simp: Y_def list_all_iff not_keywordChar keywordChar_def)
    have rest: "\<not> sublist [CHR 0xC4, CHR 0xB0] (drop k cs)"
      using tail sublist_drop [of k cs] sublist_order.order.trans by blast
    note ih = "2.IH"(2) [OF False k_def cp_def "2.prems"(1) rest]
    show ?thesis
    proof (cases "v = []")
      case True
      then show ?thesis by simp
    next
      case nonempty: False
      show ?thesis
        unfolding lhs rhs
        using ih foreign_prefix [OF nonempty "2.prems"(1) Y_foreign(2,1)]
          foreign_prefix [OF nonempty "2.prems"(1) cp_foreign(2,1)]
          foreign_sublist [OF nonempty "2.prems"(1) Y_foreign(1)]
          foreign_sublist [OF nonempty "2.prems"(1) cp_foreign(1)]
        by simp
    qed
  qed
qed

lemma includes_lower_keyword:
  assumes "list_all keywordChar w" and "\<not> sublist [CHR 0xC4, CHR 0xB0] msg"
  shows "str_includes (toLowerCase msg) w \<longleftrightarrow> ci_contains msg w"
  using toLowerFrom_keyword [OF assms, of msg 0]
  by (simp add: str_includes_sublist toLowerCase_def ci_contains_keyword [OF assms(1)])

lemma keywords_keywordChar:
  "\<forall>w \<in> set techKeywords. list_all keywordChar w"
  "list_all keywordChar ''short answer''"
  "list_all keywordChar ''exam''"
  "list_all keywordChar ''define''"
  by (simp_all add: techKeywords_def keywordChar_def)

lemma detectMode_ci:
  assumes "\<not> sublist [CHR 0xC4, CHR 0xB0] msg"
  shows "detectMode msg =
     (if \<exists>w \<in> set techKeywords. ci_contains msg w then ''technical''
      else if ci_contains msg ''short answer'' then ''concise''
      else if ci_contains msg ''exam'' \<or> ci_contains msg ''define'' then ''exam''
      else ''chat'')"
proof -
  have "list_ex (\<lambda>word. str_includes (toLowerCase msg) word) techKeywords
      \<longleftrightarrow> (\<exists>w \<in> set techKeywords. ci_contains msg w)"
    unfolding list_ex_iff
    using keywords_keywordChar(1) includes_lower_keyword [OF _ assms] by blast
  then show ?thesis
    unfolding detectMode_def Let_def
    by (simp only: includes_lower_keyword [OF keywords_keywordChar(2) assms]
        includes_lower_keyword [OF keywords_keywordChar(3) assms]
        includes_lower_keyword [OF keywords_keywordChar(4) assms])
qed

lemma detectMode_examples:
  "detectMode ''please fix this bug in my function'' = ''technical''"
  "detectMode ''give me a short answer'' = ''concise''"
  "detectMode ''define entropy'' = ''exam''"
  "detectMode ''how are you'' = ''chat''"
  by code_simp+




section \<open>Data layer and handler: basic facts\<close>

lemma readData_Some: "doc s = Some d \<Longrightarrow> readData s = (d, s)"
  by (simp add: readData_def ensureDataFile_def)

lemma readData_None: "doc s = None \<Longrightarrow> readData s = ([], writeFile [] s)"
  by (simp add: readData_def ensureDataFile_def writeFile_def)

lemma jsGet_Own_iff: "jsGet obj key = Own v \<longleftrightarrow> map_of obj key = Some v"
  by (simp add: jsGet_def split: option.splits)

lemma jsGet_Absent_iff:
  "jsGet obj key = Absent \<longleftrightarrow> map_of obj key = None \<and> key \<notin> set objectPrototypeKeys"
  by (simp add: jsGet_def split: option.splits)

lemma jsSet_existing: "map_of obj key = Some v \<Longrightarrow> jsSet obj key w = AList.update key w obj"
  by (simp add: jsSet_def)

lemma getChat_Some: "doc s = Some d \<Longrightarrow> getChat chatId s = (jsGet d chatId, s)"
  by (simp add: getChat_def readData_Some)

lemma saveChat_Some:
  "doc s = Some d \<Longrightarrow> saveChat chatId c s = writeFile (jsSet d chatId c) s"
  by (simp add: saveChat_def readData_Some writeData_def)

lemma knownModes_MODES: "knownModes = map fst MODES"
  by (simp add: knownModes_def MODES_def)

lemma jsGet_MODES_known: "(\<exists>p. jsGet MODES f = Own p) \<longleftrightarrow> f \<in> set knownModes"
proof -
  have "(\<exists>p. map_of MODES f = Some p) \<longleftrightarrow> f \<in> fst ` set MODES"
    using map_of_eq_None_iff [of MODES f] by auto
  then show ?thesis
    by (simp add: jsGet_Own_iff knownModes_MODES)
qed

text \<open>
  A turn on an existing session whose mode resolves: the reply is what \<open>callGroq\<close>
  returns for the context built from the stored memory and the transcript with the new
  user message, and the session is written back with both messages and the new memory.
\<close>

lemma handleTurn_existing:
  assumes "chatId \<noteq> []" and "msg \<noteq> []"
    and "doc s = Some d" and "map_of d chatId = Some c"
    and "jsGet MODES (selectMode (forcedMode c) msg) \<noteq> Absent"
  shows "handleTurn fetch (Some chatId) (Some msg) s =
     (let mode = selectMode (forcedMode c) msg;
          config = jsGet MODES mode;
          reply = callGroq fetch
            (buildContext config (memory c) (messages c @ [\<lparr>role = ''user'', content = msg\<rparr>])) config
      in (Inr (reply, mode),
          writeFile (AList.update chatId
            (c\<lparr>messages := messages c @ [\<lparr>role = ''user'', content = msg\<rparr>,
                                           \<lparr>role = ''assistant'', content = reply\<rparr>],
               memory := msg\<rparr>) d) s))"
proof -
  have found: "getChat chatId s = (Own c, s)"
    using assms(3,4) by (simp add: getChat_Some jsGet_Own_iff)
  show ?thesis
    using assms(1,2,5)
    by (cases "jsGet MODES (selectMode (forcedMode c) msg)")
       (simp_all add: handleTurn_def found Let_def saveChat_Some [OF assms(3)]
          jsSet_existing [OF assms(4)])
qed

lemma handleTurn_unknown_mode:
  assumes "chatId \<noteq> []" and "msg \<noteq> []"
    and "doc s = Some d" and "map_of d chatId = Some c"
    and "jsGet MODES (selectMode (forcedMode c) msg) = Absent"
  shows "handleTurn fetch (Some chatId) (Some msg) s = (Inl TypeError, s)"
proof -
  have found: "getChat chatId s = (Own c, s)"
    using assms(3,4) by (simp add: getChat_Some jsGet_Own_iff)
  show ?thesis
    using assms(1,2,5) by (simp add: handleTurn_def found Let_def)
qed

lemma handleTurn_Inr_nonempty:
  assumes "handleTurn fetch (Some chatId) (Some msg) s = (Inr r, s')"
  shows "chatId \<noteq> [] \<and> msg \<noteq> []"
proof (rule ccontr)
  assume "\<not> (chatId \<noteq> [] \<and> msg \<noteq> [])"
  then have "handleTurn fetch (Some chatId) (Some msg) s = (Inl InvalidRequest, s)"
    by (simp add: handleTurn_def)
  with assms show False
    by simp
qed

section \<open>Turn orchestration\<close>

text \<open>
  C1. A successful turn on an existing session commits that session with exactly two
  messages appended to its transcript, the user message with the submitted text and then
  the assistant message with the reply; its memory is the submitted text; title,
  createdAt, forcedMode and the earlier messages are as before. The other sessions of the
  document are untouched.
\<close>

theorem handleTurn_commit:
  assumes "doc s = Some d" and "map_of d chatId = Some c"
    and "handleTurn fetch (Some chatId) (Some msg) s = (Inr (reply, mode), s')"
  shows "\<exists>d' c'. doc s' = Some d' \<and> map_of d' chatId = Some c'
     \<and> messages c' = messages c @ [\<lparr>role = ''user'', content = msg\<rparr>,
                                     \<lparr>role = ''assistant'', content = reply\<rparr>]
     \<and> length (messages c') = length (messages c) + 2
     \<and> memory c' = msg
     \<and> title c' = title c \<and> createdAt c' = createdAt c \<and> forcedMode c' = forcedMode c
     \<and> (\<forall>k. k \<noteq> chatId \<longrightarrow> map_of d' k = map_of d k)"
proof -
  from assms(3) have ne: "chatId \<noteq> []" "msg \<noteq> []"
    using handleTurn_Inr_nonempty by blast+
  have cfg: "jsGet MODES (selectMode (forcedMode c) msg) \<noteq> Absent"
  proof
    assume "jsGet MODES (selectMode (forcedMode c) msg) = Absent"
    from handleTurn_unknown_mode [OF ne assms(1,2) this] assms(3) show False
      by simp
  qed
  let ?c' = "c\<lparr>messages := messages c @ [\<lparr>role = ''user'', content = msg\<rparr>,
                                           \<lparr>role = ''assistant'', content = reply\<rparr>],
               memory := msg\<rparr>"
  from handleTurn_existing [OF ne assms(1,2) cfg, of fetch] assms(3)
  have s': "s' = writeFile (AList.update chatId ?c' d) s"
    by (simp add: Let_def)
  have "doc s' = Some (AList.update chatId ?c' d)"
    by (simp add: s' writeFile_def)
  moreover have "map_of (AList.update chatId ?c' d) chatId = Some ?c'"
    by (simp add: update_conv')
  moreover have "\<forall>k. k \<noteq> chatId \<longrightarrow> map_of (AList.update chatId ?c' d) k = map_of d k"
    by (simp add: update_conv')
  ultimately show ?thesis
    by (intro exI [of _ "AList.update chatId ?c' d"] exI [of _ ?c']) simp
qed

theorem handleTurn_commit_witness:
  "\<exists>d' c'. doc (snd (handleTurn (\<lambda>req. Responded True (JsonContent (Some ''Hello!'')))
                  (Some ''s1'') (Some ''how are you'') example_state)) = Some d'
     \<and> map_of d' ''s1'' = Some c'
     \<and> messages c' = [\<lparr>role = ''assistant'', content = greeting\<rparr>,
                       \<lparr>role = ''user'', content = ''how are you''\<rparr>,
                       \<lparr>role = ''assistant'', content = ''Hello!''\<rparr>]
     \<and> memory c' = ''how are you'' \<and> title c' = ''New Chat''
     \<and> createdAt c' = 1700000000000 \<and> forcedMode c' = None"
proof -
  have run: "handleTurn (\<lambda>req. Responded True (JsonContent (Some ''Hello!'')))
       (Some ''s1'') (Some ''how are you'') example_state
     = (Inr (''Hello!'', ''chat''),
        snd (handleTurn (\<lambda>req. Responded True (JsonContent (Some ''Hello!'')))
          (Some ''s1'') (Some ''how are you'') example_state))"
    by code_simp
  have "doc example_state = Some [(''s1'', example_chat)]"
    "map_of [(''s1'', example_chat)] ''s1'' = Some example_chat"
    by (simp_all add: example_state_def)
  from handleTurn_commit [OF this run] show ?thesis
    by (auto simp: example_chat_def)
qed

lemma callGroq_failed:
  assumes "config \<noteq> Absent" and "\<forall>req. generator_failed (fetch req)"
  shows "callGroq fetch msgs config = fallbackReply"
proof -
  let ?req = "\<lparr>req_messages = msgs,
      req_temperature = (case config of Own p \<Rightarrow> Some (temperature p) | _ \<Rightarrow> None),
      req_max_tokens = (case config of Own p \<Rightarrow> Some (max_tokens p) | _ \<Rightarrow> None)\<rparr>"
  from assms(2) have "generator_failed (fetch ?req)" ..
  then have "(case fetch ?req of
      Rejected \<Rightarrow> fallbackReply
    | Responded ok body \<Rightarrow>
        if \<not> ok then fallbackReply
        else (case body of JsonError \<Rightarrow> fallbackReply
              | JsonContent c \<Rightarrow> (case c of None \<Rightarrow> [] | Some txt \<Rightarrow> txt))) = fallbackReply"
    by (cases "fetch ?req") simp_all
  with assms(1) show ?thesis
    by (cases config) (simp_all add: callGroq_def)
qed

lemma callGroq_content:
  assumes "config \<noteq> Absent" and "\<forall>req. fetch req = Responded True (JsonContent c)"
  shows "callGroq fetch msgs config = (case c of None \<Rightarrow> [] | Some txt \<Rightarrow> txt)"
  using assms by (cases config) (simp_all add: callGroq_def)

lemma fallbackReply_nonempty: "fallbackReply \<noteq> []"
  by (simp add: fallbackReply_def)

text \<open>
  C2. When the generator call of a turn fails (transport exception or non-success
  response), the turn still succeeds: the reply is the fixed fallback string, and the
  session is committed with the user message and the fallback as the assistant message,
  two messages more than before.
\<close>

theorem generator_failure_absorbed:
  assumes "chatId \<noteq> []" and "msg \<noteq> []"
    and "doc s = Some d" and "map_of d chatId = Some c"
    and "jsGet MODES (selectMode (forcedMode c) msg) \<noteq> Absent"
    and "\<forall>req. generator_failed (fetch req)"
  shows "\<exists>s' d' c'. handleTurn fetch (Some chatId) (Some msg) s
        = (Inr (fallbackReply, selectMode (forcedMode c) msg), s')
     \<and> doc s' = Some d' \<and> map_of d' chatId = Some c'
     \<and> messages c' = messages c @ [\<lparr>role = ''user'', content = msg\<rparr>,
                                     \<lparr>role = ''assistant'', content = fallbackReply\<rparr>]
     \<and> length (messages c') = length (messages c) + 2"
proof -
  let ?c' = "c\<lparr>messages := messages c @ [\<lparr>role = ''user'', content = msg\<rparr>,
                                           \<lparr>role = ''assistant'', content = fallbackReply\<rparr>],
               memory := msg\<rparr>"
  let ?s' = "writeFile (AList.update chatId ?c' d) s"
  have "handleTurn fetch (Some chatId) (Some msg) s
      = (Inr (fallbackReply, selectMode (forcedMode c) msg), ?s')"
    using handleTurn_existing [OF assms(1-5), of fetch]
    by (simp add: Let_def callGroq_failed [OF assms(5,6)])
  moreover have "doc ?s' = Some (AList.update chatId ?c' d)"
    by (simp add: writeFile_def)
  moreover have "map_of (AList.update chatId ?c' d) chatId = Some ?c'"
    by (simp add: update_conv')
  ultimately show ?thesis
    by (intro exI [of _ ?s'] exI [of _ "AList.update chatId ?c' d"] exI [of _ ?c']) simp
qed

theorem generator_failure_absorbed_witness:
  "\<exists>s' d' c'. handleTurn (\<lambda>req. Responded False JsonError) (Some ''s1'') (Some ''define entropy'')
         example_state = (Inr (fallbackReply, ''exam''), s')
     \<and> doc s' = Some d' \<and> map_of d' ''s1'' = Some c'
     \<and> messages c' = [\<lparr>role = ''assistant'', content = greeting\<rparr>,
                       \<lparr>role = ''user'', content = ''define entropy''\<rparr>,
                       \<lparr>role = ''assistant'', content = fallbackReply\<rparr>]"
proof -
  have mode: "selectMode (forcedMode example_chat) ''define entropy'' = ''exam''"
    by code_simp
  have "jsGet MODES (selectMode (forcedMode example_chat) ''define entropy'') \<noteq> Absent"
    unfolding mode by code_simp
  from generator_failure_absorbed [of "''s1''" "''define entropy''" example_state
      "[(''s1'', example_chat)]" example_chat "\<lambda>req. Responded False JsonError", OF _ _ _ _ this]
  show ?thesis
    unfolding mode by (simp add: example_state_def) (simp add: example_chat_def, blast)
qed

text \<open>
  C10. When the generator answers with a success status and a body without generated text
  (\<open>choices\<close> missing, or an empty \<open>content\<close>), the reply and the assistant message
  appended to the transcript are the empty string; the fallback string, which is not
  empty, is not substituted.
\<close>

theorem empty_success_no_fallback:
  assumes "chatId \<noteq> []" and "msg \<noteq> []"
    and "doc s = Some d" and "map_of d chatId = Some c"
    and "jsGet MODES (selectMode (forcedMode c) msg) \<noteq> Absent"
    and "c0 = None \<or> c0 = Some []"
    and "\<forall>req. fetch req = Responded True (JsonContent c0)"
  shows "\<exists>s' d' c'. handleTurn fetch (Some chatId) (Some msg) s
        = (Inr ([], selectMode (forcedMode c) msg), s')
     \<and> doc s' = Some d' \<and> map_of d' chatId = Some c'
     \<and> messages c' = messages c @ [\<lparr>role = ''user'', content = msg\<rparr>,
                                     \<lparr>role = ''assistant'', content = []\<rparr>]
     \<and> [] \<noteq> fallbackReply"
proof -
  let ?c' = "c\<lparr>messages := messages c @ [\<lparr>role = ''user'', content = msg\<rparr>,
                                           \<lparr>role = ''assistant'', content = []\<rparr>],
               memory := msg\<rparr>"
  let ?s' = "writeFile (AList.update chatId ?c' d) s"
  have reply: "callGroq fetch msgs (jsGet MODES (selectMode (forcedMode c) msg)) = []" for msgs
    using callGroq_content [OF assms(5,7)] assms(6) by auto
  have "handleTurn fetch (Some chatId) (Some msg) s
      = (Inr ([], selectMode (forcedMode c) msg), ?s')"
    using handleTurn_existing [OF assms(1-5), of fetch]
    by (simp add: Let_def reply)
  moreover have "doc ?s' = Some (AList.update chatId ?c' d)"
    by (simp add: writeFile_def)
  moreover have "map_of (AList.update chatId ?c' d) chatId = Some ?c'"
    by (simp add: update_conv')
  ultimately show ?thesis
    using fallbackReply_nonempty
    by (intro exI [of _ ?s'] exI [of _ "AList.update chatId ?c' d"] exI [of _ ?c']) simp
qed

theorem empty_success_no_fallback_witness:
  "\<exists>s' d' c'. handleTurn (\<lambda>req. Responded True (JsonContent None)) (Some ''s1'') (Some ''hi'')
         example_state = (Inr ([], ''chat''), s')
     \<and> doc s' = Some d' \<and> map_of d' ''s1'' = Some c'
     \<and> messages c' = [\<lparr>role = ''assistant'', content = greeting\<rparr>,
                       \<lparr>role = ''user'', content = ''hi''\<rparr>,
                       \<lparr>role = ''assistant'', content = []\<rparr>]"
proof -
  have mode: "selectMode (forcedMode example_chat) ''hi'' = ''chat''"
    by code_simp
  have "jsGet MODES (selectMode (forcedMode example_chat) ''hi'') \<noteq> Absent"
    unfolding mode by code_simp
  from empty_success_no_fallback [of "''s1''" "''hi''" example_state
      "[(''s1'', example_chat)]" example_chat None "\<lambda>req. Responded True (JsonContent None)",
      OF _ _ _ _ this]
  show ?thesis
    unfolding mode by (simp add: example_state_def) (simp add: example_chat_def, blast)
qed

text \<open>
  C4. A forced mode that resolves to a profile of \<open>MODES\<close> is the selected mode whatever
  the message says: the message is not inspected, the profile used is the forced one, and
  the turn reports the forced mode as the mode used. With forcedMode "concise", a message
  full of technical keywords is still answered in mode concise.
\<close>

theorem forced_mode_wins:
  assumes "jsGet MODES f = Own p"
    and "chatId \<noteq> []" and "msg \<noteq> []"
    and "doc s = Some d" and "map_of d chatId = Some c" and "forcedMode c = Some f"
  shows "selectMode (Some f) msg = f
     \<and> selectMode (Some f) msg = selectMode (Some f) other
     \<and> (\<exists>reply s'. handleTurn fetch (Some chatId) (Some msg) s = (Inr (reply, f), s')
           \<and> reply = callGroq fetch
                (buildContext (Own p) (memory c) (messages c @ [\<lparr>role = ''user'', content = msg\<rparr>]))
                (Own p))
     \<and> selectMode (Some ''concise'') ''please fix this bug in my function'' = ''concise''"
proof -
  from assms(1) have "f \<in> set knownModes"
    using jsGet_MODES_known by blast
  then have "f \<noteq> []"
    by (auto simp: knownModes_def)
  then have sel: "selectMode (Some f) m = f" for m
    by (simp add: selectMode_def)
  have cfg: "jsGet MODES (selectMode (forcedMode c) msg) \<noteq> Absent"
    by (simp add: assms(6) sel assms(1))
  have "\<exists>reply s'. handleTurn fetch (Some chatId) (Some msg) s = (Inr (reply, f), s')
           \<and> reply = callGroq fetch
                (buildContext (Own p) (memory c) (messages c @ [\<lparr>role = ''user'', content = msg\<rparr>]))
                (Own p)"
    using handleTurn_existing [OF assms(2-5) cfg, of fetch]
    by (simp add: Let_def assms(6) sel assms(1))
  moreover have "selectMode (Some ''concise'') ''please fix this bug in my function'' = ''concise''"
    by (simp add: selectMode_def)
  ultimately show ?thesis
    by (simp add: sel)
qed

theorem forced_mode_wins_witness:
  "selectMode (Some ''concise'') ''fix the bug in my sql code'' = ''concise''
   \<and> detectMode ''fix the bug in my sql code'' = ''technical''
   \<and> (\<exists>reply s'. handleTurn (\<lambda>req. Responded True (JsonContent (Some ''ok'')))
          (Some ''s1'') (Some ''fix the bug in my sql code'')
          \<lparr>doc = Some [(''s1'', example_chat\<lparr>forcedMode := Some ''concise''\<rparr>)], writeLog = []\<rparr>
        = (Inr (reply, ''concise''), s'))"
proof -
  have "jsGet MODES ''concise'' = Own \<lparr>temperature = 5 / 10, max_tokens = 150, systemPrompt =
         ''You are Almas. Give very short and clear answers.''\<rparr>"
    by (simp add: jsGet_def MODES_def)
  from forced_mode_wins [OF this, where chatId = "''s1''" and msg = "''fix the bug in my sql code''"
      and s = "\<lparr>doc = Some [(''s1'', example_chat\<lparr>forcedMode := Some ''concise''\<rparr>)], writeLog = []\<rparr>"
      and d = "[(''s1'', example_chat\<lparr>forcedMode := Some ''concise''\<rparr>)]"
      and c = "example_chat\<lparr>forcedMode := Some ''concise''\<rparr>"
      and fetch = "\<lambda>req. Responded True (JsonContent (Some ''ok''))"]
  have "selectMode (Some ''concise'') ''fix the bug in my sql code'' = ''concise''
     \<and> (\<exists>reply s'. handleTurn (\<lambda>req. Responded True (JsonContent (Some ''ok'')))
          (Some ''s1'') (Some ''fix the bug in my sql code'')
          \<lparr>doc = Some [(''s1'', example_chat\<lparr>forcedMode := Some ''concise''\<rparr>)], writeLog = []\<rparr>
        = (Inr (reply, ''concise''), s'))"
    by simp blast
  moreover have "detectMode ''fix the bug in my sql code'' = ''technical''"
    by code_simp
  ultimately show ?thesis
    by simp
qed

section \<open>Context builder\<close>

lemma slice_last_split:
  "\<exists>earlier. xs = earlier @ slice_last n xs \<and> length earlier = length xs - n"
  unfolding slice_last_def
  by (rule exI [of _ "take (length xs - n) xs"]) simp

lemma length_slice_last: "length (slice_last n xs) = min n (length xs)"
  by (simp add: slice_last_def)

lemma slice_last_nth: "i < min n (length xs) \<Longrightarrow> slice_last n xs ! i = xs ! (length xs - n + i)"
  by (simp add: slice_last_def)

text \<open>
  C5. The context built for a profile, a memory value and a transcript is one system
  message followed by the last twelve messages of the transcript in their order. The
  system message holds the profile's prompt, a line "User Memory:", and then the memory,
  or "None" when the memory is empty. It is the only system message of the context when
  the transcript has none. A transcript of more than twelve messages contributes exactly
  its last twelve: it splits into the earlier messages, which are left out, and the
  window.
\<close>

theorem context_window:
  assumes "\<forall>m \<in> set transcript. role m \<noteq> ''system''"
  shows "buildContext (Own p) mem transcript =
       \<lparr>role = ''system'',
        content = systemPrompt p @ [CHR 0x0A] @ ''User Memory:'' @ [CHR 0x0A]
          @ (if mem = [] then ''None'' else mem)\<rparr>
       # drop (length transcript - 12) transcript
     \<and> length (filter (\<lambda>m. role m = ''system'') (buildContext (Own p) mem transcript)) = 1
     \<and> length (tl (buildContext (Own p) mem transcript)) = min 12 (length transcript)
     \<and> (\<forall>i < min 12 (length transcript).
           tl (buildContext (Own p) mem transcript) ! i = transcript ! (length transcript - 12 + i))
     \<and> (\<exists>earlier. transcript = earlier @ tl (buildContext (Own p) mem transcript)
           \<and> length earlier = length transcript - 12)"
proof -
  have "filter (\<lambda>m. role m = ''system'') (slice_last 12 transcript) = []"
    using assms unfolding slice_last_def filter_empty_conv
    by (meson in_set_dropD)
  then show ?thesis
    using slice_last_split [of transcript 12] slice_last_nth [of _ 12 transcript]
    by (simp add: buildContext_def systemMessage_def length_slice_last)
       (simp add: slice_last_def)
qed

theorem context_window_witness:
  "length example_transcript = 20
   \<and> buildContext (jsGet MODES ''chat'') ''likes tea'' example_transcript
     = \<lparr>role = ''system'',
        content = ''You are Almas, a friendly AI created by Hussain. Be natural and conversational.''
          @ [CHR 0x0A] @ ''User Memory:'' @ [CHR 0x0A] @ ''likes tea''\<rparr>
       # drop 8 example_transcript
   \<and> length (buildContext (jsGet MODES ''chat'') ''likes tea'' example_transcript) = 13"
proof -
  have cfg: "jsGet MODES ''chat'' = Own \<lparr>temperature = 8 / 10, max_tokens = 500, systemPrompt =
         ''You are Almas, a friendly AI created by Hussain. Be natural and conversational.''\<rparr>"
    by (simp add: jsGet_def MODES_def)
  have len: "length example_transcript = 20"
    by (simp add: example_transcript_def)
  have "\<forall>m \<in> set example_transcript. role m \<noteq> ''system''"
    by (simp add: example_transcript_def)
  from context_window [OF this, of "\<lparr>temperature = 8 / 10, max_tokens = 500, systemPrompt =
         ''You are Almas, a friendly AI created by Hussain. Be natural and conversational.''\<rparr>"
         "''likes tea''"]
  show ?thesis
    unfolding cfg by (simp add: len)
qed

section \<open>Unknown sessions\<close>

lemma handleTurn_absent:
  assumes "chatId \<noteq> []" and "msg \<noteq> []"
    and "jsGet (case doc s of None \<Rightarrow> [] | Some d \<Rightarrow> d) chatId = Absent"
  shows "handleTurn fetch (Some chatId) (Some msg) s = (Inl NotFound, ensureDataFile s)"
proof (cases "doc s")
  case None
  with assms show ?thesis
    by (simp add: handleTurn_def getChat_def readData_None ensureDataFile_def)
next
  case (Some d)
  with assms show ?thesis
    by (simp add: handleTurn_def getChat_def readData_Some ensureDataFile_def)
qed

text \<open>
  C6, as stated, fails where chats.json does not exist yet: the turn on an unknown
  session returns NotFound, but reading the store has created the document, one write.
\<close>

theorem unknown_session_write_counterexample:
  "doc \<lparr>doc = None, writeLog = []\<rparr> = None
   \<and> fst (handleTurn (\<lambda>req. Rejected) (Some ''no-such-session'') (Some ''hi'')
          \<lparr>doc = None, writeLog = []\<rparr>) = Inl NotFound
   \<and> writeLog (snd (handleTurn (\<lambda>req. Rejected) (Some ''no-such-session'') (Some ''hi'')
          \<lparr>doc = None, writeLog = []\<rparr>)) = [[]]
   \<and> writeLog (snd (handleTurn (\<lambda>req. Rejected) (Some ''no-such-session'') (Some ''hi'')
          \<lparr>doc = None, writeLog = []\<rparr>)) \<noteq> writeLog \<lparr>doc = None, writeLog = []\<rparr>"
proof -
  have "handleTurn (\<lambda>req. Rejected) (Some ''no-such-session'') (Some ''hi'')
          \<lparr>doc = None, writeLog = []\<rparr> = (Inl NotFound, \<lparr>doc = Some [], writeLog = [[]]\<rparr>)"
    by code_simp
  then show ?thesis
    by simp
qed

text \<open>
  C6, amended. A turn with a non-empty message on a session id that is not in the store
  (and is not a property name that every object inherits) returns NotFound and
  writes no session data. An existing document is not written at all: the state after
  the call is the state before. An absent document is created as the empty mapping, the
  lazy initialisation of the store, and that is the only write. In both cases the mapping
  read from the store is the same before and after.
\<close>

theorem unknown_session_not_found:
  assumes "chatId \<noteq> []" and "msg \<noteq> []"
    and "chatId \<notin> set objectPrototypeKeys"
    and "map_of (case doc s of None \<Rightarrow> [] | Some d \<Rightarrow> d) chatId = None"
  shows "\<exists>s'. handleTurn fetch (Some chatId) (Some msg) s = (Inl NotFound, s')
     \<and> (doc s \<noteq> None \<longrightarrow> s' = s)
     \<and> (doc s = None \<longrightarrow> s' = s\<lparr>doc := Some [], writeLog := writeLog s @ [[]]\<rparr>)
     \<and> fst (readData s') = fst (readData s)"
proof -
  have "jsGet (case doc s of None \<Rightarrow> [] | Some d \<Rightarrow> d) chatId = Absent"
    using assms(3,4) by (simp add: jsGet_Absent_iff)
  from handleTurn_absent [OF assms(1,2) this]
  have "handleTurn fetch (Some chatId) (Some msg) s = (Inl NotFound, ensureDataFile s)" .
  moreover have "doc s \<noteq> None \<longrightarrow> ensureDataFile s = s"
    by (auto simp: ensureDataFile_def)
  moreover have "doc s = None \<longrightarrow> ensureDataFile s = s\<lparr>doc := Some [], writeLog := writeLog s @ [[]]\<rparr>"
    by (simp add: ensureDataFile_def writeFile_def)
  moreover have "fst (readData (ensureDataFile s)) = fst (readData s)"
    by (cases "doc s") (simp_all add: readData_def ensureDataFile_def writeFile_def)
  ultimately show ?thesis
    by (intro exI [of _ "ensureDataFile s"] conjI)
qed

theorem unknown_session_not_found_witness:
  "handleTurn (\<lambda>req. Rejected) (Some ''s2'') (Some ''hi'') example_state
     = (Inl NotFound, example_state)
   \<and> handleTurn (\<lambda>req. Rejected) (Some ''s2'') (Some ''hi'') \<lparr>doc = None, writeLog = []\<rparr>
     = (Inl NotFound, \<lparr>doc = Some [], writeLog = [[]]\<rparr>)"
proof -
  have k: "''s2'' \<notin> set objectPrototypeKeys"
    by (simp add: objectPrototypeKeys_def)
  have "handleTurn (\<lambda>req. Rejected) (Some ''s2'') (Some ''hi'') example_state
     = (Inl NotFound, example_state)"
    using unknown_session_not_found [OF _ _ k, of "''hi''" example_state "\<lambda>req. Rejected"]
    by (simp add: example_state_def)
  moreover have "handleTurn (\<lambda>req. Rejected) (Some ''s2'') (Some ''hi'') \<lparr>doc = None, writeLog = []\<rparr>
     = (Inl NotFound, \<lparr>doc = Some [], writeLog = [[]]\<rparr>)"
    using unknown_session_not_found [OF _ _ k, of "''hi''" "\<lparr>doc = None, writeLog = []\<rparr>" "\<lambda>req. Rejected"]
    by simp
  ultimately show ?thesis
    by simp
qed

text \<open>
  An id that names a property of \<open>Object.prototype\<close> is found by \<open>data[chatId]\<close> though
  no session has it: the handler then reads \<open>chat.messages\<close> of a value that has none
  and throws.
\<close>

lemma handleTurn_inherited_id:
  "handleTurn (\<lambda>req. Rejected) (Some ''constructor'') (Some ''hi'') \<lparr>doc = Some [], writeLog = []\<rparr>
     = (Inl TypeError, \<lparr>doc = Some [], writeLog = []\<rparr>)"
  by code_simp

section \<open>Deleting sessions\<close>

lemma deleteChat_Some:
  "doc s = Some d \<Longrightarrow> deleteChat chatId s =
     (case jsGet d chatId of
        Absent \<Rightarrow> (False, s)
      | _ \<Rightarrow> (True, writeFile (AList.delete chatId d) s))"
  by (simp add: deleteChat_def readData_Some writeData_def split: lookup.splits)

lemma listChats_ids:
  assumes "doc s = Some d"
  shows "s_chatId ` set (fst (listChats s)) = fst ` set d"
proof -
  have "s_chatId ` set (fst (listChats s))
      = (\<lambda>x. s_chatId (case x of (k, c) \<Rightarrow>
            \<lparr>s_chatId = k, s_title = title c, s_createdAt = createdAt c\<rparr>)) ` set d"
    by (simp add: listChats_def readData_Some [OF assms] image_image)
  also have "\<dots> = fst ` set d"
    by (rule image_cong) (simp_all add: case_prod_beta)
  finally show ?thesis .
qed

text \<open>
  For an id that is not a property name of \<open>Object.prototype\<close>, \<open>deleteChat\<close> returns
  true exactly when the session exists, and then removes it; a second call returns false
  and leaves the store as it is; the summaries no longer list the id.
\<close>

lemma deleteChat_plain_id:
  assumes "doc s = Some d" and "chatId \<notin> set objectPrototypeKeys"
  shows "fst (deleteChat chatId s) = (map_of d chatId \<noteq> None)"
    and "map_of d chatId \<noteq> None \<Longrightarrow>
           doc (snd (deleteChat chatId s)) = Some (AList.delete chatId d)"
    and "deleteChat chatId (snd (deleteChat chatId s)) = (False, snd (deleteChat chatId s))"
    and "chatId \<notin> s_chatId ` set (fst (listChats (snd (deleteChat chatId s))))
           \<or> map_of d chatId = None"
proof -
  show "fst (deleteChat chatId s) = (map_of d chatId \<noteq> None)"
    using assms by (auto simp: deleteChat_Some jsGet_def split: option.splits)
  show del: "map_of d chatId \<noteq> None \<Longrightarrow>
           doc (snd (deleteChat chatId s)) = Some (AList.delete chatId d)"
    using assms by (auto simp: deleteChat_Some jsGet_def writeFile_def split: option.splits)
  have gone: "map_of (AList.delete chatId d) chatId = None"
    by (simp add: delete_conv')
  show "deleteChat chatId (snd (deleteChat chatId s)) = (False, snd (deleteChat chatId s))"
  proof (cases "map_of d chatId")
    case None
    with assms show ?thesis
      by (simp add: deleteChat_Some jsGet_def)
  next
    case (Some c)
    with del have "doc (snd (deleteChat chatId s)) = Some (AList.delete chatId d)"
      by simp
    from deleteChat_Some [OF this, of chatId] gone assms(2) show ?thesis
      by (simp add: jsGet_def)
  qed
  show "chatId \<notin> s_chatId ` set (fst (listChats (snd (deleteChat chatId s))))
           \<or> map_of d chatId = None"
  proof (cases "map_of d chatId")
    case None
    then show ?thesis by simp
  next
    case (Some c)
    with del have d': "doc (snd (deleteChat chatId s)) = Some (AList.delete chatId d)"
      by simp
    have "chatId \<notin> fst ` set (AList.delete chatId d)"
      by (rule delete_notin_dom)
    then have "chatId \<notin> s_chatId ` set (fst (listChats (snd (deleteChat chatId s))))"
      by (simp add: listChats_ids [OF d'])
    then show ?thesis ..
  qed
qed

text \<open>
  C7 fails on an id that every object inherits from \<open>Object.prototype\<close>: on the empty
  store \<open>deleteChat\<close> answers true for "constructor", rewrites the document, and
  answers true again on the second call, though no such session ever existed.
\<close>

theorem deleteChat_inherited_id:
  "map_of ([] :: data) ''constructor'' = None
   \<and> deleteChat ''constructor'' \<lparr>doc = Some [], writeLog = []\<rparr>
       = (True, \<lparr>doc = Some [], writeLog = [[]]\<rparr>)
   \<and> deleteChat ''constructor'' \<lparr>doc = Some [], writeLog = [[]]\<rparr>
       = (True, \<lparr>doc = Some [], writeLog = [[], []]\<rparr>)
   \<and> deleteRoute ''constructor'' \<lparr>doc = Some [], writeLog = []\<rparr>
       = (Inr (), \<lparr>doc = Some [], writeLog = [[]]\<rparr>)"
  by code_simp

section \<open>Forced modes that are not profiles\<close>

lemma selectMode_forced: "f \<noteq> [] \<Longrightarrow> selectMode (Some f) msg = f"
  by (simp add: selectMode_def)

text \<open>
  C9, as stated, fails for a forced mode that names a property of \<open>Object.prototype\<close>:
  "constructor" is not empty and is not a known mode, yet \<open>MODES[selectedMode]\<close> is
  a value, no field read throws, and the turn succeeds, reporting "constructor" as
  the mode used.
\<close>

theorem unknown_forced_mode_counterexample:
  "''constructor'' \<noteq> [] \<and> ''constructor'' \<notin> set knownModes
   \<and> fst (handleTurn (\<lambda>req. Responded True (JsonContent (Some ''ok'')))
          (Some ''s1'') (Some ''hi'')
          \<lparr>doc = Some [(''s1'', example_chat\<lparr>forcedMode := Some ''constructor''\<rparr>)],
           writeLog = []\<rparr>) = Inr (''ok'', ''constructor'')"
proof -
  have "fst (handleTurn (\<lambda>req. Responded True (JsonContent (Some ''ok'')))
          (Some ''s1'') (Some ''hi'')
          \<lparr>doc = Some [(''s1'', example_chat\<lparr>forcedMode := Some ''constructor''\<rparr>)],
           writeLog = []\<rparr>) = Inr (''ok'', ''constructor'')"
    by code_simp
  then show ?thesis
    by (simp add: knownModes_def)
qed

text \<open>
  C9, amended. If the forced mode of a session is a non-empty string that is neither a
  known mode identifier nor a property name that every object inherits, a turn on the
  session does not fall back to automatic detection: the selected mode is the forced
  string, the profile lookup yields \<open>undefined\<close>, and the turn fails with a TypeError
  when the profile's prompt is read, before the generator is called; nothing is written.
\<close>

theorem unknown_forced_mode_fails:
  assumes "chatId \<noteq> []" and "msg \<noteq> []"
    and "doc s = Some d" and "map_of d chatId = Some c"
    and "forcedMode c = Some f" and "f \<noteq> []"
    and "f \<notin> set knownModes" and "f \<notin> set objectPrototypeKeys"
  shows "selectMode (forcedMode c) msg = f
     \<and> jsGet MODES f = Absent
     \<and> handleTurn fetch (Some chatId) (Some msg) s = (Inl TypeError, s)"
proof -
  have sel: "selectMode (forcedMode c) msg = f"
    by (simp add: assms(5,6) selectMode_forced)
  have "map_of MODES f = None"
    using assms(7) unfolding knownModes_MODES by (simp add: map_of_eq_None_iff)
  with assms(8) have cfg: "jsGet MODES f = Absent"
    by (simp add: jsGet_Absent_iff)
  from handleTurn_unknown_mode [OF assms(1-4), of fetch] sel cfg
  have "handleTurn fetch (Some chatId) (Some msg) s = (Inl TypeError, s)"
    by simp
  with sel cfg show ?thesis
    by simp
qed

theorem unknown_forced_mode_fails_witness:
  "handleTurn (\<lambda>req. Responded True (JsonContent (Some ''ok''))) (Some ''s1'')
       (Some ''fix this bug'')
       \<lparr>doc = Some [(''s1'', example_chat\<lparr>forcedMode := Some ''poetry''\<rparr>)], writeLog = []\<rparr>
     = (Inl TypeError,
        \<lparr>doc = Some [(''s1'', example_chat\<lparr>forcedMode := Some ''poetry''\<rparr>)], writeLog = []\<rparr>)
   \<and> detectMode ''fix this bug'' = ''technical''"
proof -
  have "''poetry'' \<notin> set knownModes" "''poetry'' \<notin> set objectPrototypeKeys"
    by (simp_all add: knownModes_def objectPrototypeKeys_def)
  from this unknown_forced_mode_fails [where f = "''poetry''"
      and chatId = "''s1''" and msg = "''fix this bug''"
      and s = "\<lparr>doc = Some [(''s1'', example_chat\<lparr>forcedMode := Some ''poetry''\<rparr>)], writeLog = []\<rparr>"
      and d = "[(''s1'', example_chat\<lparr>forcedMode := Some ''poetry''\<rparr>)]"
      and c = "example_chat\<lparr>forcedMode := Some ''poetry''\<rparr>"
      and fetch = "\<lambda>req. Responded True (JsonContent (Some ''ok''))"]
  have "handleTurn (\<lambda>req. Responded True (JsonContent (Some ''ok''))) (Some ''s1'')
       (Some ''fix this bug'')
       \<lparr>doc = Some [(''s1'', example_chat\<lparr>forcedMode := Some ''poetry''\<rparr>)], writeLog = []\<rparr>
     = (Inl TypeError,
        \<lparr>doc = Some [(''s1'', example_chat\<lparr>forcedMode := Some ''poetry''\<rparr>)], writeLog = []\<rparr>)"
    by simp
  moreover have "detectMode ''fix this bug'' = ''technical''"
    by code_simp
  ultimately show ?thesis
    by simp
qed

section \<open>Two turns over one document\<close>

lemma lookup_case_present:
  "x \<noteq> Absent \<Longrightarrow> (case x of Absent \<Rightarrow> a | Own p \<Rightarrow> b | Inherited \<Rightarrow> b) = b"
  by (cases x) simp_all

lemma doc_writeFile: "doc (writeFile X s) = Some X"
  by (simp add: writeFile_def)

lemma readData_writeFile: "readData (writeFile X s) = (X, writeFile X s)"
  by (simp add: readData_Some doc_writeFile)

text \<open>Run alone, the four steps of a task are the handler.\<close>

lemma turn_steps_handleTurn:
  "interleave fetch [True, True, True, True] (Received chatIdO messageO, t2, s)
     = (Finished (fst (handleTurn fetch chatIdO messageO s)), t2,
        snd (handleTurn fetch chatIdO messageO s))"
proof (cases chatIdO)
  case None
  then show ?thesis by (simp add: handleTurn_def)
next
  case chatId: (Some chatId)
  show ?thesis
  proof (cases messageO)
    case None
    with chatId show ?thesis by (simp add: handleTurn_def)
  next
    case (Some msg)
    show ?thesis
    proof (cases "chatId = [] \<or> msg = []")
      case True
      with chatId Some show ?thesis by (auto simp: handleTurn_def)
    next
      case False
      obtain found s1 where g: "getChat chatId s = (found, s1)"
        by (cases "getChat chatId s")
      then have s1: "doc s1 \<noteq> None"
        by (auto simp: getChat_def readData_def ensureDataFile_def writeFile_def Let_def
            split: option.splits)
      then obtain d1 where d1: "doc s1 = Some d1"
        by blast
      show ?thesis
      proof (cases found)
        case Absent
        with chatId Some False g show ?thesis by (simp add: handleTurn_def)
      next
        case Inherited
        with chatId Some False g show ?thesis by (simp add: handleTurn_def)
      next
        case (Own c)
        show ?thesis
        proof (cases "jsGet MODES (selectMode (forcedMode c) msg) = Absent")
          case True
          with chatId Some False g Own show ?thesis
            by (simp add: handleTurn_def Let_def)
        next
          case cfg: False
          with chatId Some False g Own show ?thesis
            by (simp add: handleTurn_def Let_def lookup_case_present saveChat_def
                readData_Some [OF d1])
        qed
      qed
    qed
  qed
qed

lemma count_list_bool: "count_list xs True + count_list xs False = length xs"
  by (induction xs) auto

lemma disjoint_schedules:
  assumes "complete_schedule sched" and "saves_disjoint sched"
  shows "sched \<in> set disjoint_schedule_list"
proof -
  have "length sched = 8"
    using assms(1) count_list_bool [of sched] by (simp add: complete_schedule_def)
  then have "sched \<in> set (List.n_lists 8 [True, False])"
    unfolding set_n_lists by auto
  with assms have "sched \<in> set (filter (\<lambda>x. complete_schedule x \<and> saves_disjoint x)
      (List.n_lists 8 [True, False]))"
    by simp
  also have "filter (\<lambda>x. complete_schedule x \<and> saves_disjoint x) (List.n_lists 8 [True, False])
    = disjoint_schedule_list"
    by code_simp
  finally show ?thesis .
qed

text \<open>
  C8, as stated, fails: the handler neither locks nor merges. With both sessions in the
  store, let the first turn read the document in \<open>saveChat\<close>, then the second turn read
  it too, then both write. Both callers get a success, and the document holds the second
  session's turn but the first session as it was before: its committed turn is lost.
\<close>

theorem concurrent_turns_lost_update_counterexample:
  "complete_schedule [True, True, True, False, False, False, True, False]
   \<and> fst (interleave (\<lambda>req. Responded True (JsonContent (Some ''ok'')))
        [True, True, True, False, False, False, True, False]
        (Received (Some ''s1'') (Some ''hi''), Received (Some ''s2'') (Some ''hello''), example_two))
     = Finished (Inr (''ok'', ''chat''))
   \<and> fst (snd (interleave (\<lambda>req. Responded True (JsonContent (Some ''ok'')))
        [True, True, True, False, False, False, True, False]
        (Received (Some ''s1'') (Some ''hi''), Received (Some ''s2'') (Some ''hello''), example_two)))
     = Finished (Inr (''ok'', ''chat''))
   \<and> doc (snd (snd (interleave (\<lambda>req. Responded True (JsonContent (Some ''ok'')))
        [True, True, True, False, False, False, True, False]
        (Received (Some ''s1'') (Some ''hi''), Received (Some ''s2'') (Some ''hello''), example_two))))
     = Some [(''s1'', example_chat),
             (''s2'', example_chat\<lparr>title := ''Second'',
                 messages := [\<lparr>role = ''assistant'', content = greeting\<rparr>,
                              \<lparr>role = ''user'', content = ''hello''\<rparr>,
                              \<lparr>role = ''assistant'', content = ''ok''\<rparr>],
                 memory := ''hello''\<rparr>)]"
  by code_simp

lemma jsGet_update_same: "jsGet (AList.update k v al) k = Own v"
  by (simp add: jsGet_def update_conv')

lemma jsGet_update_other: "k' \<noteq> k \<Longrightarrow> jsGet (AList.update k v al) k' = jsGet al k'"
  by (simp add: jsGet_def update_conv')

lemma jsSet_update_same: "jsSet (AList.update k v al) k w = AList.update k w (AList.update k v al)"
  by (simp add: jsSet_def update_conv')

lemma jsSet_update_other:
  "k' \<noteq> k \<Longrightarrow> map_of al k' = Some c \<Longrightarrow>
     jsSet (AList.update k v al) k' w = AList.update k' w (AList.update k v al)"
  by (simp add: jsSet_def update_conv')

text \<open>Every schedule with disjoint saves, run on two sessions of the store.\<close>

lemma disjoint_schedules_run:
  assumes ab: "a \<noteq> b" and ne: "a \<noteq> []" "b \<noteq> []" "ma \<noteq> []" "mb \<noteq> []"
    and d: "doc s = Some d" and ca: "map_of d a = Some ca" and cb: "map_of d b = Some cb"
    and cfa: "jsGet MODES (selectMode (forcedMode ca) ma) \<noteq> Absent"
    and cfb: "jsGet MODES (selectMode (forcedMode cb) mb) \<noteq> Absent"
  shows "list_all (\<lambda>sched. \<exists>ra rb moda modb s' d'.
      interleave fetch sched (Received (Some a) (Some ma), Received (Some b) (Some mb), s)
        = (Finished (Inr (ra, moda)), Finished (Inr (rb, modb)), s')
      \<and> doc s' = Some d'
      \<and> map_of d' a = Some (ca\<lparr>messages := messages ca @ [\<lparr>role = ''user'', content = ma\<rparr>,
              \<lparr>role = ''assistant'', content = ra\<rparr>], memory := ma\<rparr>)
      \<and> map_of d' b = Some (cb\<lparr>messages := messages cb @ [\<lparr>role = ''user'', content = mb\<rparr>,
              \<lparr>role = ''assistant'', content = rb\<rparr>], memory := mb\<rparr>))
    disjoint_schedule_list"
proof -
  have ga: "jsGet d a = Own ca" and gb: "jsGet d b = Own cb"
    using ca cb by (simp_all add: jsGet_Own_iff)
  have sa: "jsSet d a w = AList.update a w d" and sb: "jsSet d b w = AList.update b w d" for w
    using ca cb by (simp_all add: jsSet_existing)
  note ba = ab [symmetric]
  show ?thesis
    unfolding disjoint_schedule_list_def list.pred_inject
    by (intro conjI TrueI;
        simp add: getChat_def readData_Some [OF d] readData_writeFile doc_writeFile
          ga gb sa sb jsGet_update_same jsGet_update_other [OF ab] jsGet_update_other [OF ba]
          jsSet_update_same jsSet_update_other [OF ab ca] jsSet_update_other [OF ba cb]
          update_conv' writeData_def Let_def ab ba ne
          lookup_case_present [OF cfa] lookup_case_present [OF cfb])
qed

text \<open>
  C8, amended. Two turns on two distinct sessions of the store, interleaved at their
  suspension points in any way that keeps their saves disjoint (one turn's \<open>saveChat\<close>
  has written before the other turn's \<open>saveChat\<close> reads; in particular when the turns run
  one after the other), are both persisted: both callers get their reply, and the final
  document holds both sessions with their two new messages and their new memory.
\<close>

theorem disjoint_saves_persist_both:
  assumes ab: "a \<noteq> b" and ne: "a \<noteq> []" "b \<noteq> []" "ma \<noteq> []" "mb \<noteq> []"
    and d: "doc s = Some d" and ca: "map_of d a = Some ca" and cb: "map_of d b = Some cb"
    and cfa: "jsGet MODES (selectMode (forcedMode ca) ma) \<noteq> Absent"
    and cfb: "jsGet MODES (selectMode (forcedMode cb) mb) \<noteq> Absent"
    and sched: "complete_schedule sched" "saves_disjoint sched"
  shows "\<exists>ra rb moda modb s' d'.
      interleave fetch sched (Received (Some a) (Some ma), Received (Some b) (Some mb), s)
        = (Finished (Inr (ra, moda)), Finished (Inr (rb, modb)), s')
      \<and> doc s' = Some d'
      \<and> map_of d' a = Some (ca\<lparr>messages := messages ca @ [\<lparr>role = ''user'', content = ma\<rparr>,
              \<lparr>role = ''assistant'', content = ra\<rparr>], memory := ma\<rparr>)
      \<and> map_of d' b = Some (cb\<lparr>messages := messages cb @ [\<lparr>role = ''user'', content = mb\<rparr>,
              \<lparr>role = ''assistant'', content = rb\<rparr>], memory := mb\<rparr>)"
proof -
  from disjoint_schedules [OF sched]
  have "sched \<in> set disjoint_schedule_list" .
  with disjoint_schedules_run [OF ab ne d ca cb cfa cfb, of fetch] show ?thesis
    unfolding list_all_iff by blast
qed

theorem disjoint_saves_persist_both_witness:
  "\<exists>ra rb moda modb s' d'.
      interleave (\<lambda>req. Responded True (JsonContent (Some ''ok'')))
        [True, False, True, True, False, True, False, False]
        (Received (Some ''s1'') (Some ''hi''), Received (Some ''s2'') (Some ''hello''), example_two)
        = (Finished (Inr (ra, moda)), Finished (Inr (rb, modb)), s')
      \<and> doc s' = Some d'
      \<and> map_of d' ''s1'' = Some (example_chat\<lparr>messages := messages example_chat
              @ [\<lparr>role = ''user'', content = ''hi''\<rparr>,
                 \<lparr>role = ''assistant'', content = ra\<rparr>], memory := ''hi''\<rparr>)
      \<and> map_of d' ''s2'' = Some (example_chat\<lparr>title := ''Second'',
              messages := messages (example_chat\<lparr>title := ''Second''\<rparr>)
              @ [\<lparr>role = ''user'', content = ''hello''\<rparr>,
                 \<lparr>role = ''assistant'', content = rb\<rparr>], memory := ''hello''\<rparr>)"
proof -
  have sched: "complete_schedule [True, False, True, True, False, True, False, False]"
    "saves_disjoint [True, False, True, True, False, True, False, False]"
    by code_simp+
  have cfg: "jsGet MODES (selectMode (forcedMode example_chat) ''hi'') \<noteq> Absent"
    "jsGet MODES (selectMode (forcedMode (example_chat\<lparr>title := ''Second''\<rparr>)) ''hello'') \<noteq> Absent"
    by code_simp+
  have store: "doc example_two = Some [(''s1'', example_chat), (''s2'', example_chat\<lparr>title := ''Second''\<rparr>)]"
    "map_of [(''s1'', example_chat), (''s2'', example_chat\<lparr>title := ''Second''\<rparr>)] ''s1'' = Some example_chat"
    "map_of [(''s1'', example_chat), (''s2'', example_chat\<lparr>title := ''Second''\<rparr>)] ''s2''
       = Some (example_chat\<lparr>title := ''Second''\<rparr>)"
    by (simp_all add: example_two_def)
  have "''s1'' \<noteq> ''s2''" "''s1'' \<noteq> []" "''s2'' \<noteq> []" "''hi'' \<noteq> []" "''hello'' \<noteq> []"
    by simp_all
  from disjoint_saves_persist_both [OF this store cfg sched,
      of "\<lambda>req. Responded True (JsonContent (Some ''ok''))"]
  show ?thesis
    by simp
qed

lemma overlapping_schedules:
  assumes "complete_schedule sched" and "\<not> saves_disjoint sched"
  shows "sched \<in> set overlapping_schedule_list"
proof -
  have "length sched = 8"
    using assms(1) count_list_bool [of sched] by (simp add: complete_schedule_def)
  then have "sched \<in> set (List.n_lists 8 [True, False])"
    unfolding set_n_lists by auto
  with assms have "sched \<in> set (filter (\<lambda>x. complete_schedule x \<and> \<not> saves_disjoint x)
      (List.n_lists 8 [True, False]))"
    by simp
  also have "filter (\<lambda>x. complete_schedule x \<and> \<not> saves_disjoint x) (List.n_lists 8 [True, False])
    = overlapping_schedule_list"
    by code_simp
  finally show ?thesis .
qed

text \<open>
  The other complete schedules, where the saves overlap: both callers still get their
  reply, but the document ends with one session updated and the other one as it was
  before the two turns. The writer that comes second took its copy of the document
  before the first one wrote.
\<close>

lemma overlapping_schedules_run:
  assumes ab: "a \<noteq> b" and ne: "a \<noteq> []" "b \<noteq> []" "ma \<noteq> []" "mb \<noteq> []"
    and d: "doc s = Some d" and ca: "map_of d a = Some ca" and cb: "map_of d b = Some cb"
    and cfa: "jsGet MODES (selectMode (forcedMode ca) ma) \<noteq> Absent"
    and cfb: "jsGet MODES (selectMode (forcedMode cb) mb) \<noteq> Absent"
  shows "list_all (\<lambda>sched. \<exists>ra rb moda modb s' d'.
      interleave fetch sched (Received (Some a) (Some ma), Received (Some b) (Some mb), s)
        = (Finished (Inr (ra, moda)), Finished (Inr (rb, modb)), s')
      \<and> doc s' = Some d'
      \<and> (map_of d' a = Some ca \<and> map_of d' b \<noteq> Some cb
           \<or> map_of d' b = Some cb \<and> map_of d' a \<noteq> Some ca))
    overlapping_schedule_list"
proof -
  have ga: "jsGet d a = Own ca" and gb: "jsGet d b = Own cb"
    using ca cb by (simp_all add: jsGet_Own_iff)
  have sa: "jsSet d a w = AList.update a w d" and sb: "jsSet d b w = AList.update b w d" for w
    using ca cb by (simp_all add: jsSet_existing)
  have grow: "c\<lparr>messages := messages c @ [u, v], memory := m\<rparr> \<noteq> c" for c :: chat and u v m
  proof
    assume "c\<lparr>messages := messages c @ [u, v], memory := m\<rparr> = c"
    then have "messages (c\<lparr>messages := messages c @ [u, v], memory := m\<rparr>) = messages c"
      by simp
    then show False
      by simp
  qed
  note ba = ab [symmetric]
  show ?thesis
    unfolding overlapping_schedule_list_def list.pred_inject
    by (intro conjI TrueI;
        simp add: getChat_def readData_Some [OF d] readData_writeFile doc_writeFile
          ga gb sa sb jsGet_update_same jsGet_update_other [OF ab] jsGet_update_other [OF ba]
          jsSet_update_same jsSet_update_other [OF ab ca] jsSet_update_other [OF ba cb]
          update_conv' writeData_def Let_def ab ba ne ca cb grow
          lookup_case_present [OF cfa] lookup_case_present [OF cfb])
qed

lemma overlapping_saves_lose_update:
  assumes "a \<noteq> b" and "a \<noteq> []" "b \<noteq> []" "ma \<noteq> []" "mb \<noteq> []"
    and "doc s = Some d" and "map_of d a = Some ca" and "map_of d b = Some cb"
    and "jsGet MODES (selectMode (forcedMode ca) ma) \<noteq> Absent"
    and "jsGet MODES (selectMode (forcedMode cb) mb) \<noteq> Absent"
    and "complete_schedule sched" and "\<not> saves_disjoint sched"
  shows "\<exists>ra rb moda modb s' d'.
      interleave fetch sched (Received (Some a) (Some ma), Received (Some b) (Some mb), s)
        = (Finished (Inr (ra, moda)), Finished (Inr (rb, modb)), s')
      \<and> doc s' = Some d'
      \<and> (map_of d' a = Some ca \<and> map_of d' b \<noteq> Some cb
           \<or> map_of d' b = Some cb \<and> map_of d' a \<noteq> Some ca)"
proof -
  from overlapping_schedules [OF assms(11,12)]
  have "sched \<in> set overlapping_schedule_list" .
  with overlapping_schedules_run [OF assms(1-10), of fetch] show ?thesis
    unfolding list_all_iff by blast
qed

end
